theory Spec2Isabelle
  imports Complex_Main
begin

section \<open>Atoms and the value stack\<close>

text \<open>
  The source declares \<^verbatim>\<open>type Operator string\<close> with the four constants
  \<^verbatim>\<open>ADD = "+"\<close>, \<^verbatim>\<open>DIV = "/"\<close>, \<^verbatim>\<open>MUL = "*"\<close> and \<^verbatim>\<open>SQRT\<close> (the square-root sign,
  three bytes in UTF-8), and \<^verbatim>\<open>type Number float64\<close>. Both implement the interface
  \<^verbatim>\<open>Atom\<close>. An operator is any string; the parser and the generator build the four
  declared constants only. The type of numbers is a parameter \<open>'n\<close>: its arithmetic is not
  defined by the repository, and is passed to the functions below as a record of
  operations.
\<close>

type_synonym Operator = string

definition ADD :: Operator where
  "ADD = ''+''"

definition DIV :: Operator where
  "DIV = ''/''"

definition MUL :: Operator where
  "MUL = ''*''"

definition SQRT :: Operator where
  "SQRT = [CHR 0xE2, CHR 0x88, CHR 0x9A]"

datatype 'n Atom = Number 'n | Operator Operator

fun IsOperator :: "'n Atom \<Rightarrow> bool" where
  "IsOperator (Operator opr) = True"
| "IsOperator (Number n) = False"

text \<open>
  A string that is one of the four operator constants, and an atom that is a number or
  one of these operators.
\<close>

definition operator_symbol :: "string \<Rightarrow> bool" where
  "operator_symbol tok = (tok \<in> set [ADD, MUL, DIV, SQRT])"

definition declared_atom :: "'n Atom \<Rightarrow> bool" where
  "declared_atom atom = (case atom of Number n \<Rightarrow> True | Operator opr \<Rightarrow> operator_symbol opr)"

text \<open>
  The operations of \<^verbatim>\<open>float64\<close> the program uses: \<^verbatim>\<open>y + x\<close>, \<^verbatim>\<open>y * x\<close>, \<^verbatim>\<open>y / x\<close>,
  \<^verbatim>\<open>math.Sqrt\<close>, \<^verbatim>\<open>target - newVal\<close>, \<^verbatim>\<open>math.Abs\<close>, \<^verbatim>\<open>newDiff < diff\<close> and the
  conversion \<^verbatim>\<open>float64(k)\<close> of an integer.
\<close>

record 'n arith =
  fadd :: "'n \<Rightarrow> 'n \<Rightarrow> 'n"
  fmul :: "'n \<Rightarrow> 'n \<Rightarrow> 'n"
  fdiv :: "'n \<Rightarrow> 'n \<Rightarrow> 'n"
  fsqrt :: "'n \<Rightarrow> 'n"
  fsub :: "'n \<Rightarrow> 'n \<Rightarrow> 'n"
  fabs :: "'n \<Rightarrow> 'n"
  fless :: "'n \<Rightarrow> 'n \<Rightarrow> bool"
  fofint :: "int \<Rightarrow> 'n"

text \<open>
  The same operations read in exact real arithmetic. Every value of the worked example
  \<^verbatim>\<open>1 2 + 3 4 / * 10 +\<close> (3, 0.75, 2.25, 12.25) is a binary fraction that a
  \<^verbatim>\<open>float64\<close> holds exactly, so double-precision arithmetic computes the same results there.
\<close>

definition exact_arith :: "real arith" where
  "exact_arith =
     \<lparr>fadd = (\<lambda>a b. a + b), fmul = (\<lambda>a b. a * b), fdiv = (\<lambda>a b. a / b), fsqrt = sqrt,
      fsub = (\<lambda>a b. a - b), fabs = (\<lambda>a. \<bar>a\<bar>), fless = (\<lambda>a b. a < b), fofint = of_int\<rparr>"

record 'n Stack =
  items :: "'n Atom list"

text \<open>A run-time panic of the Go program, and the error value \<^verbatim>\<open>Parse\<close> returns.\<close>

datatype panic = IndexOutOfRange | TypeAssertionFailed | IntnInvalidArgument

datatype parse_error = CouldntParse string

definition NewStack :: "'n Atom list \<Rightarrow> 'n Stack" where
  "NewStack xs = \<lparr>items = xs\<rparr>"

text \<open>\<^verbatim>\<open>Pop\<close> reads \<^verbatim>\<open>s.items[0]\<close>, which panics on an empty slice.\<close>

definition Pop :: "'n Stack \<Rightarrow> panic + ('n Atom \<times> 'n Stack)" where
  "Pop s = (case items s of [] \<Rightarrow> Inl IndexOutOfRange
            | atom # rest \<Rightarrow> Inr (atom, s\<lparr>items := rest\<rparr>))"

definition Len :: "'n Stack \<Rightarrow> int" where
  "Len s = int (length (items s))"

definition Peek :: "'n Stack \<Rightarrow> panic + 'n Atom" where
  "Peek s = (case items s of [] \<Rightarrow> Inl IndexOutOfRange | atom # rest \<Rightarrow> Inr atom)"

definition Push :: "'n Atom \<Rightarrow> 'n Stack \<Rightarrow> 'n Stack" where
  "Push atom s = s\<lparr>items := [atom] @ items s\<rparr>"

text \<open>\<^verbatim>\<open>Copy\<close> allocates a new slice with the same atoms; as a value it is the same stack.\<close>

definition Copy :: "'n Stack \<Rightarrow> 'n Stack" where
  "Copy s = \<lparr>items = take (length (items s)) (items s)\<rparr>"

section \<open>Rendering and parsing\<close>

text \<open>
  \<^verbatim>\<open>strings.Join(out, " ")\<close> and \<^verbatim>\<open>strings.Split(expression, " ")\<close> of the Go standard
  library, on byte strings: \<open>Split\<close> cuts at every separator byte and returns one more
  piece than there are separators, so the empty string gives one empty piece.
\<close>

fun Join :: "string list \<Rightarrow> string \<Rightarrow> string" where
  "Join [] sep = []"
| "Join [t] sep = t"
| "Join (t # u # ts) sep = t @ sep @ Join (u # ts) sep"

fun Split :: "string \<Rightarrow> char \<Rightarrow> string list" where
  "Split [] sep = [[]]"
| "Split (c # cs) sep =
     (if c = sep then [] # Split cs sep
      else (case Split cs sep of [] \<Rightarrow> [[c]] | t # ts \<Rightarrow> (c # t) # ts))"

text \<open>
  \<^verbatim>\<open>String\<close>: every atom rendered, joined by single spaces. \<open>sprint\<close> stands for
  \<^verbatim>\<open>fmt.Sprint\<close> on a \<^verbatim>\<open>Number\<close>.
\<close>

definition String :: "('n \<Rightarrow> string) \<Rightarrow> 'n Stack \<Rightarrow> string" where
  "String sprint s =
     Join (map (\<lambda>atom. case atom of Operator opr \<Rightarrow> opr | Number n \<Rightarrow> sprint n) (items s))
       '' ''"

text \<open>
  \<^verbatim>\<open>Parse\<close>. \<open>parseFloat\<close> stands for \<^verbatim>\<open>strconv.ParseFloat(_, 64)\<close>, \<open>None\<close> being its
  error. \<open>parseAtom\<close> is the \<^verbatim>\<open>switch\<close> on one token; the first loop converts the tokens
  in order and returns at the first token that is no operator symbol and no number.
\<close>

definition parseAtom :: "(string \<Rightarrow> 'n option) \<Rightarrow> string \<Rightarrow> parse_error + 'n Atom" where
  "parseAtom parseFloat unparsedAtom =
     (if unparsedAtom = ''+'' then Inr (Operator ADD)
      else if unparsedAtom = ''*'' then Inr (Operator MUL)
      else if unparsedAtom = ''/'' then Inr (Operator DIV)
      else if unparsedAtom = [CHR 0xE2, CHR 0x88, CHR 0x9A] then Inr (Operator SQRT)
      else (case parseFloat unparsedAtom of
              None \<Rightarrow> Inl (CouldntParse unparsedAtom)
            | Some num \<Rightarrow> Inr (Number num)))"

fun parseAtoms ::
  "(string \<Rightarrow> 'n option) \<Rightarrow> string list \<Rightarrow> 'n Atom list \<Rightarrow> parse_error + 'n Atom list" where
  "parseAtoms parseFloat [] parsedAtoms = Inr parsedAtoms"
| "parseAtoms parseFloat (unparsedAtom # rest) parsedAtoms =
     (case parseAtom parseFloat unparsedAtom of
        Inl err \<Rightarrow> Inl err
      | Inr parsedAtom \<Rightarrow> parseAtoms parseFloat rest (parsedAtoms @ [parsedAtom]))"

text \<open>The second loop pushes \<^verbatim>\<open>parsedAtoms[length-i-1]\<close> for \<open>i = 0, 1, ...\<close>.\<close>

definition pushReversed :: "'n Atom list \<Rightarrow> 'n Stack" where
  "pushReversed parsedAtoms =
     foldl (\<lambda>stack i. Push (parsedAtoms ! (length parsedAtoms - i - 1)) stack)
       \<lparr>items = []\<rparr> [0 ..< length parsedAtoms]"

definition Parse :: "(string \<Rightarrow> 'n option) \<Rightarrow> string \<Rightarrow> parse_error + 'n Stack" where
  "Parse parseFloat expression =
     (case parseAtoms parseFloat (Split expression CHR '' '') [] of
        Inl err \<Rightarrow> Inl err
      | Inr parsedAtoms \<Rightarrow> Inr (pushReversed parsedAtoms))"

section \<open>Validity\<close>

text \<open>
  The \<^verbatim>\<open>switch\<close> of \<^verbatim>\<open>Valid\<close>; its \<^verbatim>\<open>default\<close> case takes the numbers and every operator
  that is none of the four constants.
\<close>

fun valence :: "'n Atom \<Rightarrow> int" where
  "valence (Operator opr) =
     (if opr = ADD then 2
      else if opr = MUL then 2
      else if opr = DIV then 2
      else if opr = SQRT then 1
      else 0)"
| "valence (Number n) = 0"

text \<open>
  \<^verbatim>\<open>Valid\<close>: the counter \<^verbatim>\<open>size\<close> (here \<open>sz\<close>) starts at 0, grows by \<open>1 - valence\<close> at each
  atom, and the scan returns false as soon as it is not positive.
\<close>

fun Valid_loop :: "int \<Rightarrow> 'n Atom list \<Rightarrow> bool" where
  "Valid_loop sz [] = (sz = 1)"
| "Valid_loop sz (atom # rest) =
     (let sz' = sz + (1 - valence atom)
      in if sz' \<le> 0 then False else Valid_loop sz' rest)"

definition Valid :: "'n Stack \<Rightarrow> bool" where
  "Valid s = Valid_loop 0 (items s)"

section \<open>Evaluation\<close>

text \<open>\<^verbatim>\<open>nums.Pop().(Number)\<close>: a pop, then a type assertion that panics on an operator.\<close>

definition PopNumber :: "'n Stack \<Rightarrow> panic + ('n \<times> 'n Stack)" where
  "PopNumber nums =
     (case Pop nums of Inl e \<Rightarrow> Inl e
      | Inr (atom, nums') \<Rightarrow>
          (case atom of Number x \<Rightarrow> Inr (x, nums') | Operator opr \<Rightarrow> Inl TypeAssertionFailed))"

definition binary :: "('n \<Rightarrow> 'n \<Rightarrow> 'n) \<Rightarrow> 'n Stack \<Rightarrow> panic + 'n Stack" where
  "binary f nums =
     (case PopNumber nums of Inl e \<Rightarrow> Inl e
      | Inr (x, nums1) \<Rightarrow>
          (case PopNumber nums1 of Inl e \<Rightarrow> Inl e
           | Inr (y, nums2) \<Rightarrow> Inr (Push (Number (f y x)) nums2)))"

text \<open>
  The body of the loop of \<^verbatim>\<open>Evaluate\<close> on one atom. The \<^verbatim>\<open>switch\<close> on an operator has no
  \<^verbatim>\<open>default\<close> case: an operator that is none of the four constants leaves the
  accumulator as it is.
\<close>

fun apply_atom :: "'n arith \<Rightarrow> 'n Atom \<Rightarrow> 'n Stack \<Rightarrow> panic + 'n Stack" where
  "apply_atom ar (Operator opr) nums =
     (if opr = ADD then binary (fadd ar) nums
      else if opr = MUL then binary (fmul ar) nums
      else if opr = DIV then binary (fdiv ar) nums
      else if opr = SQRT then
        (case PopNumber nums of Inl e \<Rightarrow> Inl e
         | Inr (x, nums1) \<Rightarrow> Inr (Push (Number (fsqrt ar x)) nums1))
      else Inr nums)"
| "apply_atom ar (Number n) nums = Inr (Push (Number n) nums)"

text \<open>The loop \<^verbatim>\<open>for stack.Len() > 0 { curr := stack.Pop(); ... }\<close> over the copy.\<close>

fun Evaluate_loop :: "'n arith \<Rightarrow> 'n Atom list \<Rightarrow> 'n Stack \<Rightarrow> panic + 'n Stack" where
  "Evaluate_loop ar [] nums = Inr nums"
| "Evaluate_loop ar (cur # rest) nums =
     (case apply_atom ar cur nums of Inl e \<Rightarrow> Inl e
      | Inr nums' \<Rightarrow> Evaluate_loop ar rest nums')"

definition Evaluate :: "'n arith \<Rightarrow> 'n Stack \<Rightarrow> panic + 'n" where
  "Evaluate ar s =
     (case Evaluate_loop ar (items (Copy s)) \<lparr>items = []\<rparr> of Inl e \<Rightarrow> Inl e
      | Inr nums \<Rightarrow>
          (case Peek nums of Inl e \<Rightarrow> Inl e
           | Inr atom \<Rightarrow>
               (case atom of Number v \<Rightarrow> Inr v | Operator opr \<Rightarrow> Inl TypeAssertionFailed)))"

section \<open>Random generation\<close>

text \<open>
  The pseudorandom source is the sequence of raw draws still to come. \<^verbatim>\<open>rand.Intn(n)\<close>
  panics when \<open>n \<le> 0\<close>; otherwise it consumes one draw and returns a value in \<open>[0, n)\<close>.
  Every sequence of outcomes of successive \<^verbatim>\<open>Intn\<close> calls is produced by some sequence
  of raw draws.
\<close>

type_synonym rng = "nat \<Rightarrow> nat"

definition Intn :: "int \<Rightarrow> rng \<Rightarrow> panic + (int \<times> rng)" where
  "Intn n r =
     (if n \<le> 0 then Inl IntnInvalidArgument else Inr (int (r 0) mod n, (\<lambda>i. r (Suc i))))"

text \<open>Go's \<^verbatim>\<open>int\<close> is a 64-bit two's-complement integer: sums and differences wrap.\<close>

definition wrap64 :: "int \<Rightarrow> int" where
  "wrap64 x = (x + 2 ^ 63) mod 2 ^ 64 - 2 ^ 63"

definition RandomOperator :: "rng \<Rightarrow> panic + (Operator \<times> rng)" where
  "RandomOperator r =
     (case Intn 3 r of Inl e \<Rightarrow> Inl e | Inr (k, r') \<Rightarrow> Inr ([ADD, DIV, MUL] ! nat k, r'))"

definition RandomWholeNumber :: "'n arith \<Rightarrow> int \<Rightarrow> int \<Rightarrow> rng \<Rightarrow> panic + ('n \<times> rng)" where
  "RandomWholeNumber ar mn mx r =
     (case Intn (wrap64 (mx - mn)) r of Inl e \<Rightarrow> Inl e
      | Inr (k, r') \<Rightarrow> Inr (fofint ar (wrap64 (k + mn)), r'))"

text \<open>
  \<^verbatim>\<open>generateRecursive\<close>. The calls that draw are made in the order Go evaluates them,
  left to right. In the last case \<open>len > 3\<close>, so \<^verbatim>\<open>length/2\<close> is \<open>len div 2\<close>.
\<close>

function generateRecursive ::
  "'n arith \<Rightarrow> int \<Rightarrow> int \<Rightarrow> int \<Rightarrow> rng \<Rightarrow> panic + ('n Atom list \<times> rng)" where
  "generateRecursive ar mn mx len r =
     (if len < 1 then Inr ([], r)
      else if len = 1 then
        (case RandomWholeNumber ar mn mx r of Inl e \<Rightarrow> Inl e
         | Inr (a, r1) \<Rightarrow> Inr ([Number a], r1))
      else if len = 2 then
        (case RandomWholeNumber ar mn mx r of Inl e \<Rightarrow> Inl e
         | Inr (a, r1) \<Rightarrow> Inr ([Number a, Operator SQRT], r1))
      else if len = 3 then
        (case RandomWholeNumber ar mn mx r of Inl e \<Rightarrow> Inl e
         | Inr (a, r1) \<Rightarrow>
             (case RandomWholeNumber ar mn mx r1 of Inl e \<Rightarrow> Inl e
              | Inr (b, r2) \<Rightarrow>
                  (case RandomOperator r2 of Inl e \<Rightarrow> Inl e
                   | Inr (opr, r3) \<Rightarrow> Inr ([Number a, Number b, Operator opr], r3))))
      else
        (case Intn 4 r of Inl e \<Rightarrow> Inl e
         | Inr (k, r1) \<Rightarrow>
             if k = 0 then
               (case generateRecursive ar mn mx (len - 1) r1 of Inl e \<Rightarrow> Inl e
                | Inr (xs, r2) \<Rightarrow> Inr (xs @ [Operator SQRT], r2))
             else
               (case generateRecursive ar mn mx (len div 2) r1 of Inl e \<Rightarrow> Inl e
                | Inr (xs, r2) \<Rightarrow>
                    (case generateRecursive ar mn mx (len div 2) r2 of Inl e \<Rightarrow> Inl e
                     | Inr (ys, r3) \<Rightarrow>
                         (case RandomOperator r3 of Inl e \<Rightarrow> Inl e
                          | Inr (opr, r4) \<Rightarrow> Inr (xs @ (ys @ [Operator opr]), r4))))))"
  by pat_completeness auto
termination
  by (relation "measure (\<lambda>(ar, mn, mx, len, r). nat len)") auto

declare generateRecursive.simps [simp del]

definition Generate :: "'n arith \<Rightarrow> int \<Rightarrow> rng \<Rightarrow> panic + ('n Stack \<times> rng)" where
  "Generate ar len r =
     (case generateRecursive ar 1 10 len r of Inl e \<Rightarrow> Inl e
      | Inr (xs, r') \<Rightarrow> Inr (NewStack xs, r'))"

section \<open>Local improvement\<close>




section \<open>The search loop\<close>

text \<open>
  One pass of the body of a worker's loop in \<^verbatim>\<open>Search\<close>: the expression generated, its
  value, its distance to the target, and whether the line is printed. The arguments
  \<^verbatim>\<open>minNum\<close> and \<^verbatim>\<open>maxNum\<close> are not used by the body.
\<close>

definition searchBody ::
  "'n arith \<Rightarrow> 'n \<Rightarrow> 'n \<Rightarrow> int \<Rightarrow> int \<Rightarrow> int \<Rightarrow> int \<Rightarrow> rng \<Rightarrow>
     panic + (('n Stack \<times> 'n \<times> 'n \<times> bool) \<times> rng)" where
  "searchBody ar approximate epsilon minLength maxLength minNum maxNum r =
     (case Intn (wrap64 (maxLength - minLength)) r of Inl e \<Rightarrow> Inl e
      | Inr (k, r1) \<Rightarrow>
          (case Generate ar (wrap64 (k + minLength)) r1 of Inl e \<Rightarrow> Inl e
           | Inr (expression, r2) \<Rightarrow>
               (case Evaluate ar expression of Inl e \<Rightarrow> Inl e
                | Inr val \<Rightarrow>
                    (let diff = fabs ar (fsub ar approximate val)
                     in Inr ((expression, val, diff, fless ar diff epsilon), r2)))))"

section \<open>The validity criterion in the words of the specification\<close>

text \<open>
  The specification describes validity by a running count: a numeric literal adds 1, a
  binary operator subtracts 1, the square root leaves it unchanged; the count after the
  first \<open>k\<close> atoms is \<open>running_count xs k\<close>. An expression is valid when the count is
  positive after every atom and 1 after the last. The specification names no other
  operator; an operator that is none of the four is counted here as a literal is.
\<close>

fun contribution :: "'n Atom \<Rightarrow> int" where
  "contribution (Number n) = 1"
| "contribution (Operator opr) =
     (if opr = ADD \<or> opr = MUL \<or> opr = DIV then - 1
      else if opr = SQRT then 0
      else 1)"

definition running_count :: "'n Atom list \<Rightarrow> nat \<Rightarrow> int" where
  "running_count xs k = sum_list (map contribution (take k xs))"

definition count_valid :: "'n Atom list \<Rightarrow> bool" where
  "count_valid xs =
     ((\<forall>k \<in> {1 .. length xs}. 0 < running_count xs k) \<and> running_count xs (length xs) = 1)"

text \<open>
  An atom of an expression generated with the bounds 1 and 10: an operator, or one of
  the whole numbers \<^verbatim>\<open>float64(k)\<close> with \<open>1 \<le> k < 10\<close>.
\<close>

definition small_literal :: "'n arith \<Rightarrow> 'n Atom \<Rightarrow> bool" where
  "small_literal ar atom =
     (case atom of Operator opr \<Rightarrow> True
      | Number x \<Rightarrow> x \<in> set (map (fofint ar) [1, 2, 3, 4, 5, 6, 7, 8, 9]))"

text \<open>The invariant of the accumulator of \<^verbatim>\<open>Evaluate\<close>: it holds numbers only.\<close>

definition numbers_only :: "'n Stack \<Rightarrow> bool" where
  "numbers_only nums = list_all (\<lambda>atom. \<not> IsOperator atom) (items nums)"

section \<open>Tokens\<close>

text \<open>
  The values of \<^verbatim>\<open>strconv.ParseFloat\<close> and of \<^verbatim>\<open>fmt.Sprint\<close> on the tokens and numbers of
  the worked examples (1, 2, 3, 4 and 10); \<^verbatim>\<open>ParseFloat\<close> fails on the empty string. They
  are the concrete library functions at which the theorems below are instantiated.
\<close>

definition parseFloat_table :: "string \<Rightarrow> real option" where
  "parseFloat_table tok =
     (if tok = ''1'' then Some 1 else if tok = ''2'' then Some 2 else if tok = ''3'' then Some 3
      else if tok = ''4'' then Some 4 else if tok = ''10'' then Some 10 else None)"

definition Sprint_table :: "real \<Rightarrow> string" where
  "Sprint_table x =
     (if x = 1 then ''1'' else if x = 2 then ''2'' else if x = 3 then ''3''
      else if x = 4 then ''4'' else if x = 10 then ''10'' else ''NaN'')"

text \<open>
  Input text with a leading space, a trailing space, or two consecutive spaces.
\<close>

fun double_space :: "string \<Rightarrow> bool" where
  "double_space (a # b # cs) = ((a = CHR '' '' \<and> b = CHR '' '') \<or> double_space (b # cs))"
| "double_space cs = False"

definition has_stray_space :: "string \<Rightarrow> bool" where
  "has_stray_space expression =
     ((expression \<noteq> [] \<and> (hd expression = CHR '' '' \<or> last expression = CHR '' ''))
      \<or> double_space expression)"


section \<open>Properties of the validity scan\<close>

lemma Operator_distinct [simp]:
  "ADD \<noteq> DIV" "ADD \<noteq> MUL" "ADD \<noteq> SQRT" "DIV \<noteq> ADD" "DIV \<noteq> MUL" "DIV \<noteq> SQRT"
  "MUL \<noteq> ADD" "MUL \<noteq> DIV" "MUL \<noteq> SQRT" "SQRT \<noteq> ADD" "SQRT \<noteq> DIV" "SQRT \<noteq> MUL"
  by (simp_all add: ADD_def DIV_def MUL_def SQRT_def)

lemma operator_symbol_iff:
  "operator_symbol opr = (opr = ADD \<or> opr = MUL \<or> opr = DIV \<or> opr = SQRT)"
  by (auto simp: operator_symbol_def)

lemma contribution_valence: "contribution atom = 1 - valence atom"
  by (cases atom rule: valence.cases) simp_all

lemma running_count_Cons:
  "running_count (x # xs) (Suc k) = contribution x + running_count xs k"
  by (simp add: running_count_def)

lemma ball_Suc_interval:
  "(\<forall>k \<in> {1 .. Suc n}. P k) = (P 1 \<and> (\<forall>k \<in> {1 .. n}. P (Suc k)))"
proof
  assume a: "\<forall>k \<in> {1 .. Suc n}. P k"
  show "P 1 \<and> (\<forall>k \<in> {1 .. n}. P (Suc k))" using a by auto
next
  assume a: "P 1 \<and> (\<forall>k \<in> {1 .. n}. P (Suc k))"
  show "\<forall>k \<in> {1 .. Suc n}. P k"
  proof
    fix k assume k: "k \<in> {1 .. Suc n}"
    show "P k"
    proof (cases "k = 1")
      case True then show ?thesis using a by simp
    next
      case False
      then obtain j where "k = Suc j" "j \<in> {1 .. n}" using k by (cases k) auto
      then show ?thesis using a by auto
    qed
  qed
qed

lemma Valid_loop_count:
  "Valid_loop sz xs =
     ((\<forall>k \<in> {1 .. length xs}. 0 < sz + running_count xs k) \<and> sz + running_count xs (length xs) = 1)"
proof (induction xs arbitrary: sz)
  case Nil
  then show ?case by (simp add: running_count_def)
next
  case (Cons x xs)
  have one: "running_count (x # xs) 1 = contribution x"
    by (simp add: running_count_def)
  show ?case
    unfolding Valid_loop.simps Let_def length_Cons ball_Suc_interval running_count_Cons one
    using Cons.IH [of "sz + (1 - valence x)"]
    by (auto simp: contribution_valence add.assoc)
qed

text \<open>
  Claim C2. \<^verbatim>\<open>Valid\<close> returns true exactly when the running count of the specification
  is positive after every atom and equal to 1 after the last one; it is false on the
  single atom \<^verbatim>\<open>+\<close> and on two literals.
\<close>

theorem Valid_iff_running_count:
  "Valid s = count_valid (items s)
   \<and> \<not> Valid (NewStack [Operator ADD])
   \<and> \<not> Valid (NewStack [Number a, Number b])"
  by (simp add: Valid_def count_valid_def Valid_loop_count NewStack_def running_count_def)

theorem Valid_iff_running_count_witness:
  "Valid (NewStack [Number (3::real), Number 4, Operator DIV, Operator SQRT])
   \<and> count_valid [Number (3::real), Number 4, Operator DIV, Operator SQRT]"
  using Valid_iff_running_count [of "NewStack [Number (3::real), Number 4, Operator DIV, Operator SQRT]"]
  by (simp add: NewStack_def Valid_def)

section \<open>Properties of the generator\<close>

lemma Valid_loop_append:
  "Valid_loop a xs \<Longrightarrow> 0 \<le> b \<Longrightarrow> Valid_loop (a + b) (xs @ ys) = Valid_loop (1 + b) ys"
proof (induction xs arbitrary: a)
  case Nil
  then show ?case by simp
next
  case (Cons x xs)
  from Cons.prems(1) have pos: "0 < a + (1 - valence x)" and rest: "Valid_loop (a + (1 - valence x)) xs"
    by (auto simp: Let_def split: if_splits)
  have "Valid_loop (a + b) ((x # xs) @ ys) = Valid_loop (a + b + (1 - valence x)) (xs @ ys)"
    using pos Cons.prems(2) by (simp add: Let_def)
  also have "\<dots> = Valid_loop (a + (1 - valence x) + b) (xs @ ys)"
    by (rule arg_cong [where f = "\<lambda>z. Valid_loop z (xs @ ys)"]) simp
  also have "\<dots> = Valid_loop (1 + b) ys"
    using Cons.IH [OF rest Cons.prems(2)] .
  finally show ?case .
qed

lemma wrap64_id: "- (2 ^ 63) \<le> x \<Longrightarrow> x < 2 ^ 63 \<Longrightarrow> wrap64 x = x"
  by (simp add: wrap64_def)

lemma Intn_pos: "0 < n \<Longrightarrow> Intn n r = Inr (int (r 0) mod n, (\<lambda>i. r (Suc i)))"
  by (simp add: Intn_def)

lemma RandomOperator_eq:
  "RandomOperator r = Inr ([ADD, DIV, MUL] ! (r 0 mod 3), (\<lambda>i. r (Suc i)))"
proof -
  have "nat (int (r 0) mod 3) = r 0 mod 3"
    by (simp add: nat_mod_distrib)
  then show ?thesis by (simp add: RandomOperator_def Intn_def)
qed

lemma RandomOperator_binary:
  assumes "RandomOperator r = Inr (opr, r')"
  shows "opr = ADD \<or> opr = DIV \<or> opr = MUL"
proof -
  have "r 0 mod 3 < 3" by simp
  then have "r 0 mod 3 = 0 \<or> r 0 mod 3 = 1 \<or> r 0 mod 3 = 2" by arith
  then show ?thesis using assms unfolding RandomOperator_eq by auto
qed

lemma RandomOperator_total: "\<exists>opr r'. RandomOperator r = Inr (opr, r')"
  by (simp add: RandomOperator_eq)

lemma RandomWholeNumber_1_10:
  "RandomWholeNumber ar 1 10 r = Inr (fofint ar (int (r 0) mod 9 + 1), (\<lambda>i. r (Suc i)))"
proof -
  have w9: "wrap64 9 = 9" by (simp add: wrap64_def)
  have p: "(2::int) ^ 63 = 9223372036854775808" by simp
  have "0 \<le> int (r 0) mod 9" "int (r 0) mod 9 < 9" by simp_all
  then have "wrap64 (int (r 0) mod 9 + 1) = int (r 0) mod 9 + 1"
    unfolding p by (intro wrap64_id; unfold p) linarith+
  then show ?thesis by (simp add: RandomWholeNumber_def w9 Intn_def)
qed

lemma small_literal_draw: "small_literal ar (Number (fofint ar (int k mod 9 + 1)))"
proof -
  have "0 \<le> int k mod 9" "int k mod 9 < 9" by simp_all
  then have "int k mod 9 + 1 \<in> {1, 2, 3, 4, 5, 6, 7, 8, 9}" by (simp; arith)
  then show ?thesis by (auto simp: small_literal_def)
qed

lemma small_literal_Operator: "small_literal ar (Operator opr)"
  by (simp add: small_literal_def)

lemma generateRecursive_1_10:
  fixes ar :: "'n arith"
  shows "1 \<le> len \<Longrightarrow>
   \<exists>xs r'. generateRecursive ar 1 10 len r = Inr (xs, r') \<and> Valid_loop 0 xs
      \<and> len \<le> int (length xs) \<and> list_all (small_literal ar) xs"
proof (induction ar "1::int" "10::int" len r rule: generateRecursive.induct)
  case (1 ar len r)
  consider "len = 1" | "len = 2" | "len = 3" | "3 < len" using "1.prems" by linarith
  then show ?case
  proof cases
    case 1
    show ?thesis unfolding generateRecursive.simps [of ar 1 10 len r] using 1
      by (simp add: RandomWholeNumber_1_10 small_literal_draw)
  next
    case 2
    show ?thesis unfolding generateRecursive.simps [of ar 1 10 len r] using 2
      by (simp add: RandomWholeNumber_1_10 small_literal_draw small_literal_Operator)
  next
    case 3
    obtain opr r3 where ro: "RandomOperator (\<lambda>i. r (Suc (Suc i))) = Inr (opr, r3)"
      using RandomOperator_total by blast
    have "opr = ADD \<or> opr = DIV \<or> opr = MUL" using RandomOperator_binary [OF ro] .
    then show ?thesis unfolding generateRecursive.simps [of ar 1 10 len r] using 3 ro
      by (auto simp: RandomWholeNumber_1_10 small_literal_draw small_literal_Operator)
  next
    case 4
    let ?r1 = "\<lambda>i. r (Suc i)"
    have i4: "Intn 4 r = Inr (int (r 0) mod 4, ?r1)" by (simp add: Intn_def)
    have guards: "\<not> len < 1" "len \<noteq> 1" "len \<noteq> 2" "len \<noteq> 3" using 4 by simp_all
    show ?thesis
    proof (cases "int (r 0) mod 4 = 0")
      case True
      have "1 \<le> len - 1" using 4 by simp
      from "1.hyps"(1) [OF guards i4 refl True this]
      obtain xs r2 where g: "generateRecursive ar 1 10 (len - 1) ?r1 = Inr (xs, r2)"
        and v: "Valid_loop 0 xs" and l: "len - 1 \<le> int (length xs)"
        and s: "list_all (small_literal ar) xs" by blast
      have "Valid_loop (0 + 0) (xs @ [Operator SQRT]) = Valid_loop (1 + 0) [Operator SQRT]"
        using Valid_loop_append [OF v, of 0] by simp
      then have "Valid_loop 0 (xs @ [Operator SQRT])" by simp
      then show ?thesis unfolding generateRecursive.simps [of ar 1 10 len r]
        using guards i4 True g l s by (simp add: small_literal_Operator)
    next
      case False
      have half: "1 \<le> len div 2" using 4 by simp
      from "1.hyps"(2) [OF guards i4 refl False half]
      obtain xs r2 where g1: "generateRecursive ar 1 10 (len div 2) ?r1 = Inr (xs, r2)"
        and v1: "Valid_loop 0 xs" and l1: "len div 2 \<le> int (length xs)"
        and s1: "list_all (small_literal ar) xs" by blast
      from "1.hyps"(3) [OF guards i4 refl False g1 refl half]
      obtain ys r3 where g2: "generateRecursive ar 1 10 (len div 2) r2 = Inr (ys, r3)"
        and v2: "Valid_loop 0 ys" and l2: "len div 2 \<le> int (length ys)"
        and s2: "list_all (small_literal ar) ys" by blast
      obtain opr r4 where ro: "RandomOperator r3 = Inr (opr, r4)"
        using RandomOperator_total by blast
      have bin: "opr = ADD \<or> opr = DIV \<or> opr = MUL" using RandomOperator_binary [OF ro] .
      let ?last = "[Operator opr :: 'n Atom]"
      have e1: "Valid_loop 0 (xs @ (ys @ ?last)) = Valid_loop 1 (ys @ ?last)"
        using Valid_loop_append [OF v1, of 0 "ys @ [Operator opr]"] by (simp del: Valid_loop.simps)
      have e2: "Valid_loop 1 (ys @ ?last) = Valid_loop 2 ?last"
        using Valid_loop_append [OF v2, of 1 "[Operator opr]"] by (simp del: Valid_loop.simps)
      have e3: "Valid_loop 2 ?last" using bin by auto
      have v: "Valid_loop 0 (xs @ (ys @ [Operator opr]))"
        unfolding e1 e2 by (rule e3)
      have l: "len \<le> int (length (xs @ (ys @ [Operator opr])))" using l1 l2 by simp
      have s: "list_all (small_literal ar) (xs @ (ys @ [Operator opr]))"
        using s1 s2 by (simp add: small_literal_Operator)
      show ?thesis unfolding generateRecursive.simps [of ar 1 10 len r]
        using guards i4 False g1 g2 ro v l s by simp
    qed
  qed
qed

lemma Generate_1_10:
  "1 \<le> len \<Longrightarrow>
   \<exists>s r'. Generate ar len r = Inr (s, r') \<and> Valid s \<and> len \<le> Len s
      \<and> list_all (small_literal ar) (items s)"
proof -
  assume "1 \<le> len"
  from generateRecursive_1_10 [OF this, of ar r]
  obtain xs r' where "generateRecursive ar 1 10 len r = Inr (xs, r')" "Valid_loop 0 xs"
    "len \<le> int (length xs)" "list_all (small_literal ar) xs" by blast
  then show ?thesis by (simp add: Generate_def NewStack_def Valid_def Len_def)
qed

lemmas generate_eval =
  generateRecursive.simps Generate_def Intn_def RandomWholeNumber_def RandomOperator_def
  wrap64_def NewStack_def

text \<open>
  Claim C1. For every requested length \<open>n \<ge> 1\<close> and every sequence of draws,
  \<^verbatim>\<open>Generate\<close> returns (it does not panic) and the stack it returns satisfies \<^verbatim>\<open>Valid\<close>.
\<close>

theorem Generate_Valid:
  "1 \<le> n \<Longrightarrow> \<exists>s r'. Generate ar n r = Inr (s, r') \<and> Valid s"
  using Generate_1_10 [of n ar r] by blast

theorem Generate_Valid_witness:
  "(1::int) \<le> 5 \<and> (\<exists>s r'. Generate exact_arith 5 (\<lambda>i. i) = Inr (s, r') \<and> Valid s)"
  using Generate_Valid [of 5 exact_arith "\<lambda>i. i"] by simp

lemma Generate_5_example:
  "\<exists>r'. Generate ar 5 (\<lambda>i. i) =
     Inr (NewStack [Number (fofint ar 3), Operator SQRT, Number (fofint ar 4), Operator SQRT,
                    Operator DIV, Operator SQRT], r')"
  by (simp add: generate_eval)

text \<open>
  Claim C9, as stated, fails: for no sequence of draws does a request for length 5 give
  fewer than 5 atoms.
\<close>

theorem Generate_5_never_shorter:
  "\<not> (\<exists>r s r'. Generate exact_arith 5 r = Inr (s, r') \<and> Len s < 5)"
proof
  assume "\<exists>r s r'. Generate exact_arith 5 r = Inr (s, r') \<and> Len s < 5"
  then obtain r s r' where g: "Generate exact_arith 5 r = Inr (s, r')" and l: "Len s < 5"
    by blast
  from Generate_1_10 [of 5 exact_arith r] g have "5 \<le> Len s" by simp
  with l show False by simp
qed

text \<open>
  Claim C9, amended. The number of atoms may differ from the requested length, upwards:
  a request for length 5 never gives fewer than 5 atoms, and for some sequence of draws it
  gives 6.
\<close>

theorem Generate_length_may_exceed:
  "(\<forall>r. \<exists>s r'. Generate ar 5 r = Inr (s, r') \<and> 5 \<le> Len s)
   \<and> (\<exists>r s r'. Generate ar 5 r = Inr (s, r') \<and> Len s = 6)"
proof
  show "\<forall>r. \<exists>s r'. Generate ar 5 r = Inr (s, r') \<and> 5 \<le> Len s"
  proof
    fix r
    show "\<exists>s r'. Generate ar 5 r = Inr (s, r') \<and> 5 \<le> Len s"
      using Generate_1_10 [of 5 ar r] by auto
  qed
next
  obtain r' where "Generate ar 5 (\<lambda>i. i) =
     Inr (NewStack [Number (fofint ar 3), Operator SQRT, Number (fofint ar 4), Operator SQRT,
                    Operator DIV, Operator SQRT], r')"
    using Generate_5_example by blast
  then have "Generate ar 5 (\<lambda>i. i) = Inr (NewStack [Number (fofint ar 3), Operator SQRT,
      Number (fofint ar 4), Operator SQRT, Operator DIV, Operator SQRT], r')
    \<and> Len (NewStack [Number (fofint ar 3), Operator SQRT,
      Number (fofint ar 4), Operator SQRT, Operator DIV, Operator SQRT]) = 6"
    by (simp add: Len_def NewStack_def)
  then show "\<exists>r s r'. Generate ar 5 r = Inr (s, r') \<and> Len s = 6" by blast
qed

theorem Generate_length_may_exceed_witness:
  "(\<exists>s r'. Generate exact_arith 5 (\<lambda>i. 0) = Inr (s, r') \<and> 5 \<le> Len s)
   \<and> (\<exists>r s r'. Generate exact_arith 5 r = Inr (s, r') \<and> Len s = 6)"
  using Generate_length_may_exceed [of exact_arith] by blast

lemma generateRecursive_2:
  "generateRecursive ar 1 10 2 r = Inr (xs, r') \<Longrightarrow> length xs = 2"
  by (auto simp: generateRecursive.simps [of ar 1 10 2 r] RandomWholeNumber_1_10)

lemma generateRecursive_3:
  "generateRecursive ar 1 10 3 r = Inr (xs, r') \<Longrightarrow> length xs = 3"
  by (auto simp: generateRecursive.simps [of ar 1 10 3 r] RandomWholeNumber_1_10 RandomOperator_eq)

lemma generateRecursive_split:
  assumes n: "3 < n" and d: "r 0 mod 4 \<noteq> 0"
    and g: "generateRecursive ar 1 10 n r = Inr (zs, r')"
  shows "\<exists>xs r2 ys r3.
           generateRecursive ar 1 10 (n div 2) (\<lambda>i. r (Suc i)) = Inr (xs, r2)
         \<and> generateRecursive ar 1 10 (n div 2) r2 = Inr (ys, r3)
         \<and> length zs = length xs + length ys + 1"
proof -
  have d': "int (r 0) mod 4 \<noteq> 0"
  proof
    assume "int (r 0) mod 4 = 0"
    then have "int (r 0 mod 4) = 0" by (simp add: zmod_int)
    with d show False by simp
  qed
  show ?thesis
    using g n d' unfolding generateRecursive.simps [of ar 1 10 n r]
    by (auto simp: Intn_def split: sum.splits prod.splits if_splits)
qed

text \<open>
  Claim C10, amended. For every \<open>n \<ge> 1\<close> and every sequence of draws the expression
  has at least \<open>n\<close> atoms. When the first draw selects the split branch at an even
  \<open>n > 3\<close> it has at least \<open>n + 1\<close> atoms, and exactly \<open>n + 1\<close> for \<open>n = 4\<close> and \<open>n = 6\<close>,
  where both halves are base cases.
\<close>

theorem Generate_length_lower_bound:
  "1 \<le> n \<Longrightarrow>
   \<exists>s r'. Generate ar n r = Inr (s, r') \<and> n \<le> Len s
     \<and> (3 < n \<and> even n \<and> r 0 mod 4 \<noteq> 0 \<longrightarrow> n + 1 \<le> Len s)
     \<and> ((n = 4 \<or> n = 6) \<and> r 0 mod 4 \<noteq> 0 \<longrightarrow> Len s = n + 1)"
proof -
  assume n1: "1 \<le> n"
  from generateRecursive_1_10 [OF n1, of ar r]
  obtain zs r' where g: "generateRecursive ar 1 10 n r = Inr (zs, r')"
    and l: "n \<le> int (length zs)" by blast
  have a: "n + 1 \<le> int (length zs)" if "3 < n" "even n" "r 0 mod 4 \<noteq> 0"
  proof -
    from generateRecursive_split [OF that(1) that(3) g]
    obtain xs r2 ys r3 where
      g1: "generateRecursive ar 1 10 (n div 2) (\<lambda>i. r (Suc i)) = Inr (xs, r2)" and
      g2: "generateRecursive ar 1 10 (n div 2) r2 = Inr (ys, r3)" and
      len: "length zs = length xs + length ys + 1" by blast
    have h: "1 \<le> n div 2" using that(1) by simp
    from generateRecursive_1_10 [OF h, of ar "\<lambda>i. r (Suc i)"] g1
    have l1: "n div 2 \<le> int (length xs)" by simp
    from generateRecursive_1_10 [OF h, of ar r2] g2
    have l2: "n div 2 \<le> int (length ys)" by simp
    have "2 * (n div 2) = n" using that(2) by simp
    then show ?thesis using l1 l2 len by simp
  qed
  have b: "int (length zs) = n + 1" if "n = 4 \<or> n = 6" "r 0 mod 4 \<noteq> 0"
  proof -
    have n3: "3 < n" using that(1) by auto
    from generateRecursive_split [OF n3 that(2) g]
    obtain xs r2 ys r3 where
      g1: "generateRecursive ar 1 10 (n div 2) (\<lambda>i. r (Suc i)) = Inr (xs, r2)" and
      g2: "generateRecursive ar 1 10 (n div 2) r2 = Inr (ys, r3)" and
      len: "length zs = length xs + length ys + 1" by blast
    from that(1) show ?thesis
    proof
      assume "n = 4"
      then show ?thesis using g1 g2 len generateRecursive_2 [of ar _ xs] generateRecursive_2 [of ar _ ys]
        by simp
    next
      assume "n = 6"
      then show ?thesis using g1 g2 len generateRecursive_3 [of ar _ xs] generateRecursive_3 [of ar _ ys]
        by simp
    qed
  qed
  show ?thesis using g l a b by (simp add: Generate_def NewStack_def Len_def)
qed

theorem Generate_length_lower_bound_witness:
  "(1::int) \<le> 4 \<and>
   (\<exists>s r'. Generate exact_arith 4 (\<lambda>i. 1) = Inr (s, r') \<and> 4 \<le> Len s \<and> Len s = 4 + 1)"
  using Generate_length_lower_bound [of 4 exact_arith "\<lambda>i. 1"] by auto

text \<open>
  Claim C10, as stated, fails at \<open>n = 8\<close>: with every raw draw equal to 1 the first
  \<^verbatim>\<open>rand.Intn(4)\<close> is 1, so the split branch is taken, each half of length 4 splits again
  into 5 atoms, and the result has 11 atoms, not 9.
\<close>

theorem Generate_8_split_longer:
  "Intn 4 (\<lambda>i. 1) = Inr (1, (\<lambda>i. 1))
   \<and> Generate exact_arith 8 (\<lambda>i. 1) =
       Inr (NewStack [Number 2, Operator SQRT, Number 2, Operator SQRT, Operator DIV,
                      Number 2, Operator SQRT, Number 2, Operator SQRT, Operator DIV,
                      Operator DIV], (\<lambda>i. 1))
   \<and> Len (NewStack [Number (2::real), Operator SQRT, Number 2, Operator SQRT, Operator DIV,
                      Number 2, Operator SQRT, Number 2, Operator SQRT, Operator DIV,
                      Operator DIV]) = 11"
  by (simp add: generate_eval exact_arith_def Len_def)

text \<open>
  Claim C5. Whatever \<^verbatim>\<open>minNum\<close> and \<^verbatim>\<open>maxNum\<close> are, every literal of the expression a
  worker generates is one of the whole numbers 1 to 9: the bounds passed to \<^verbatim>\<open>Search\<close>
  do not reach the generator. With \<^verbatim>\<open>minNum = 50\<close> and \<^verbatim>\<open>maxNum = 100\<close> the literal 2 is
  generated.
\<close>

theorem searchBody_literals:
  assumes "searchBody ar approximate epsilon minLength maxLength minNum maxNum r =
             Inr ((expression, val, diff, hit), r')"
  shows "list_all (small_literal ar) (items expression)"
proof -
  from assms obtain k r1 r2 where
    g: "Generate ar (wrap64 (k + minLength)) r1 = Inr (expression, r2)"
    by (auto simp: searchBody_def Let_def split: sum.splits prod.splits)
  show ?thesis
  proof (cases "1 \<le> wrap64 (k + minLength)")
    case True
    from Generate_1_10 [OF True, of ar r1] g show ?thesis by simp
  next
    case False
    then have "generateRecursive ar 1 10 (wrap64 (k + minLength)) r1 = Inr ([], r1)"
      by (simp add: generateRecursive.simps [of ar 1 10 "wrap64 (k + minLength)" r1])
    with g show ?thesis by (auto simp: Generate_def NewStack_def)
  qed
qed

theorem searchBody_literals_witness:
  "searchBody exact_arith 3 (1 / 10) 1 2 50 100 (\<lambda>i. 1) =
     Inr ((NewStack [Number 2], 2, 1, False), (\<lambda>i. 1))
   \<and> list_all (small_literal exact_arith) (items (NewStack [Number 2])) \<and> (2::real) < 50"
proof -
  have e: "searchBody exact_arith 3 (1 / 10) 1 2 50 100 (\<lambda>i. 1) =
     Inr ((NewStack [Number 2], 2, 1, False), (\<lambda>i. 1))"
    by (simp add: searchBody_def generate_eval exact_arith_def Evaluate_def Copy_def Peek_def
        Push_def)
  from searchBody_literals [OF e] e show ?thesis by simp
qed

section \<open>Properties of the evaluator\<close>

lemma numbers_only_cases:
  assumes "numbers_only nums"
  obtains "items nums = []"
    | x ns where "items nums = Number x # ns" "list_all (\<lambda>atom. \<not> IsOperator atom) ns"
proof (cases "items nums")
  case Nil
  then show ?thesis using that by simp
next
  case (Cons a ns)
  then show ?thesis using assms that by (cases a) (auto simp: numbers_only_def)
qed

lemma PopNumber_Cons:
  "items nums = Number x # ns \<Longrightarrow> PopNumber nums = Inr (x, nums\<lparr>items := ns\<rparr>)"
  by (simp add: PopNumber_def Pop_def)

lemma binary_two:
  "items nums = Number x # Number y # ns \<Longrightarrow>
   binary f nums = Inr (nums\<lparr>items := Number (f y x) # ns\<rparr>)"
  by (simp add: binary_def PopNumber_def Pop_def Push_def)

lemma apply_atom_step:
  assumes n: "numbers_only nums" and pos: "0 < Len nums + (1 - valence atom)"
    and d: "declared_atom atom"
  shows "\<exists>nums'. apply_atom ar atom nums = Inr nums' \<and> numbers_only nums'
           \<and> Len nums' = Len nums + (1 - valence atom)"
proof (cases atom)
  case (Number v)
  then show ?thesis using n by (simp add: Push_def numbers_only_def Len_def)
next
  case (Operator opr)
  with d have known: "opr = ADD \<or> opr = MUL \<or> opr = DIV \<or> opr = SQRT"
    by (simp add: declared_atom_def operator_symbol_iff)
  show ?thesis
  proof (cases "opr = SQRT")
    case True
    from pos Operator True have "0 < Len nums" by simp
    then obtain x ns where i: "items nums = Number x # ns"
      and ns: "list_all (\<lambda>atom. \<not> IsOperator atom) ns"
      using n by (auto elim!: numbers_only_cases simp: Len_def)
    show ?thesis using Operator True i ns
      by (simp add: PopNumber_Cons Push_def numbers_only_def Len_def)
  next
    case False
    with known have bin: "opr = ADD \<or> opr = MUL \<or> opr = DIV" by simp
    then have v: "valence atom = 2" using Operator by auto
    with pos have "1 < Len nums" by simp
    then obtain x ns where i: "items nums = Number x # ns"
      and ns: "list_all (\<lambda>atom. \<not> IsOperator atom) ns" and "ns \<noteq> []"
      using n by (auto elim!: numbers_only_cases simp: Len_def)
    then obtain y ms where j: "ns = Number y # ms"
      and ms: "list_all (\<lambda>atom. \<not> IsOperator atom) ms"
      by (cases ns; cases "hd ns") auto
    have k: "items nums = Number x # Number y # ms" using i j by simp
    show ?thesis using Operator bin ms k
      by (auto simp: binary_two [OF k] numbers_only_def Len_def)
  qed
qed

lemma Evaluate_loop_prefix:
  "numbers_only nums \<Longrightarrow> Valid_loop (Len nums) (pre @ post) \<Longrightarrow> list_all declared_atom pre \<Longrightarrow>
   \<exists>nums'. Evaluate_loop ar pre nums = Inr nums' \<and> numbers_only nums'
      \<and> Valid_loop (Len nums') post"
proof (induction pre arbitrary: nums)
  case Nil
  then show ?case by simp
next
  case (Cons atom pre)
  from Cons.prems(2) have pos: "0 < Len nums + (1 - valence atom)"
    and rest: "Valid_loop (Len nums + (1 - valence atom)) (pre @ post)"
    by (auto simp: Let_def simp del: valence.simps split: if_splits)
  from Cons.prems(3) have da: "declared_atom atom" and dp: "list_all declared_atom pre"
    by simp_all
  from apply_atom_step [OF Cons.prems(1) pos da, of ar]
  obtain nums1 where a: "apply_atom ar atom nums = Inr nums1" and n1: "numbers_only nums1"
    and l1: "Len nums1 = Len nums + (1 - valence atom)" by blast
  from rest l1 have "Valid_loop (Len nums1) (pre @ post)" by simp
  from Cons.IH [OF n1 this dp]
  obtain nums' where "Evaluate_loop ar pre nums1 = Inr nums'" "numbers_only nums'"
    "Valid_loop (Len nums') post" by auto
  then show ?case using a by simp
qed

lemma items_Copy: "items (Copy s) = items s"
  by (simp add: Copy_def)

lemma Valid_Evaluate_loop:
  assumes "Valid s" and "list_all declared_atom (items s)"
  shows "\<exists>nums x. Evaluate_loop ar (items s) \<lparr>items = []\<rparr> = Inr nums \<and> items nums = [Number x]"
proof -
  have e: "numbers_only \<lparr>items = []\<rparr>" by (simp add: numbers_only_def)
  have "Valid_loop (Len \<lparr>items = []\<rparr>) (items s @ [])"
    using assms(1) by (simp add: Valid_def Len_def)
  from Evaluate_loop_prefix [OF e this assms(2), of ar]
  obtain nums where r: "Evaluate_loop ar (items s) \<lparr>items = []\<rparr> = Inr nums"
    and n: "numbers_only nums" and l: "Len nums = 1" by auto
  from n l obtain x where "items nums = [Number x]"
    by (auto elim!: numbers_only_cases simp: Len_def)
  with r show ?thesis by blast
qed

lemma Valid_Evaluate_total:
  assumes "Valid s" and "list_all declared_atom (items s)"
  shows "\<exists>v. Evaluate ar s = Inr v"
proof -
  from Valid_Evaluate_loop [OF assms, of ar]
  obtain nums x where "Evaluate_loop ar (items s) \<lparr>items = []\<rparr> = Inr nums" "items nums = [Number x]"
    by blast
  then show ?thesis by (simp add: Evaluate_def items_Copy Peek_def)
qed

text \<open>
  Claim C3, as stated, fails on a stack that holds an operator other than the four
  constants: the one-atom stack of the operator \<^verbatim>\<open>-\<close> satisfies \<^verbatim>\<open>Valid\<close> (the default case
  counts it as a value), the loop of \<^verbatim>\<open>Evaluate\<close> pushes nothing for it, and the final
  \<^verbatim>\<open>Peek\<close> reads an empty accumulator.
\<close>

theorem Valid_unknown_operator_panics:
  "Valid (NewStack [Operator ''-'' :: real Atom])
   \<and> Evaluate exact_arith (NewStack [Operator ''-'']) = Inl IndexOutOfRange"
  by (simp add: Valid_def NewStack_def Evaluate_def Copy_def Peek_def ADD_def MUL_def DIV_def
      SQRT_def)

text \<open>
  Claim C3, amended. On a stack that satisfies \<^verbatim>\<open>Valid\<close> and whose operators are among
  the four declared constants, \<^verbatim>\<open>Evaluate\<close> returns a value: no pop and no peek meets an
  empty accumulator and no type assertion fails. At every atom of the expression the
  accumulator built from the atoms before it holds at least as many numbers as the atom's
  valence (2 for a binary operator, 1 for the square root), and after the last atom it
  holds exactly one.
\<close>

theorem Valid_Evaluate_no_empty_pop:
  assumes "Valid s" and "list_all declared_atom (items s)"
  shows "(\<exists>v. Evaluate ar s = Inr v)
    \<and> (\<forall>pre atom post. items s = pre @ atom # post \<longrightarrow>
          (\<exists>nums. Evaluate_loop ar pre \<lparr>items = []\<rparr> = Inr nums \<and> valence atom \<le> Len nums))
    \<and> (\<exists>nums. Evaluate_loop ar (items s) \<lparr>items = []\<rparr> = Inr nums \<and> Len nums = 1)"
proof (intro conjI allI impI)
  show "\<exists>v. Evaluate ar s = Inr v" using Valid_Evaluate_total [OF assms] .
next
  fix pre atom post
  assume i: "items s = pre @ atom # post"
  have e: "numbers_only \<lparr>items = []\<rparr>" by (simp add: numbers_only_def)
  have v: "Valid_loop (Len \<lparr>items = []\<rparr>) (pre @ atom # post)"
    using assms(1) i by (simp add: Valid_def Len_def)
  have dp: "list_all declared_atom pre" using assms(2) i by simp
  from Evaluate_loop_prefix [OF e v dp, of ar]
  obtain nums where r: "Evaluate_loop ar pre \<lparr>items = []\<rparr> = Inr nums"
    and v: "Valid_loop (Len nums) (atom # post)" by auto
  from v have "0 < Len nums + (1 - valence atom)"
    by (auto simp: Let_def simp del: valence.simps split: if_splits)
  then have "valence atom \<le> Len nums" by simp
  with r show "\<exists>nums. Evaluate_loop ar pre \<lparr>items = []\<rparr> = Inr nums \<and> valence atom \<le> Len nums"
    by blast
next
  from Valid_Evaluate_loop [OF assms, of ar]
  show "\<exists>nums. Evaluate_loop ar (items s) \<lparr>items = []\<rparr> = Inr nums \<and> Len nums = 1"
    by (auto simp: Len_def)
qed

theorem Valid_Evaluate_no_empty_pop_witness:
  "Valid (NewStack [Number (9::real), Operator SQRT, Number 2, Operator DIV])
   \<and> list_all declared_atom [Number (9::real), Operator SQRT, Number 2, Operator DIV]
   \<and> Evaluate exact_arith (NewStack [Number 9, Operator SQRT, Number 2, Operator DIV]) = Inr (3 / 2)
   \<and> (\<exists>nums. Evaluate_loop exact_arith [Number 9, Operator SQRT, Number 2] \<lparr>items = []\<rparr> = Inr nums
          \<and> valence (Operator DIV :: real Atom) \<le> Len nums)"
proof -
  let ?s = "NewStack [Number (9::real), Operator SQRT, Number 2, Operator DIV]"
  have v: "Valid ?s" by (simp add: Valid_def NewStack_def)
  have d: "list_all declared_atom [Number (9::real), Operator SQRT, Number 2, Operator DIV]"
    by (simp add: declared_atom_def operator_symbol_iff)
  then have d': "list_all declared_atom (items ?s)" by (simp add: NewStack_def)
  have e: "Evaluate exact_arith ?s = Inr (3 / 2)"
    by (simp add: Evaluate_def NewStack_def Copy_def binary_def PopNumber_def Pop_def Push_def
        Peek_def exact_arith_def)
  have i: "items ?s = [Number 9, Operator SQRT, Number 2] @ Operator DIV # []"
    by (simp add: NewStack_def)
  from Valid_Evaluate_no_empty_pop [OF v d', of exact_arith] i
  have "\<exists>nums. Evaluate_loop exact_arith [Number 9, Operator SQRT, Number 2] \<lparr>items = []\<rparr> = Inr nums
          \<and> valence (Operator DIV :: real Atom) \<le> Len nums" by blast
  with v d e show ?thesis by blast
qed

section \<open>Properties of the parser\<close>

lemma parseAtom_Inl_iff:
  "(parseAtom parseFloat tok = Inl err) =
     (\<not> operator_symbol tok \<and> parseFloat tok = None \<and> err = CouldntParse tok)"
  by (auto simp: parseAtom_def operator_symbol_def ADD_def MUL_def DIV_def SQRT_def
      split: option.splits)

lemma parseAtom_symbol:
  "operator_symbol opr \<Longrightarrow> parseAtom parseFloat opr = Inr (Operator opr)"
  by (auto simp: parseAtom_def operator_symbol_def ADD_def MUL_def DIV_def SQRT_def)

lemma parseAtom_number:
  "\<not> operator_symbol tok \<Longrightarrow> parseFloat tok = Some x \<Longrightarrow> parseAtom parseFloat tok = Inr (Number x)"
  by (simp add: parseAtom_def operator_symbol_def ADD_def MUL_def DIV_def SQRT_def)

lemma parseAtoms_Inr:
  "parseAtoms parseFloat toks acc = Inr xs \<Longrightarrow>
   \<exists>ys. xs = acc @ ys \<and> map (parseAtom parseFloat) toks = map Inr ys"
proof (induction toks arbitrary: acc)
  case Nil
  then show ?case by simp
next
  case (Cons tok toks)
  from Cons.prems obtain a where a: "parseAtom parseFloat tok = Inr a"
    and r: "parseAtoms parseFloat toks (acc @ [a]) = Inr xs"
    by (auto split: sum.splits)
  from Cons.IH [OF r] obtain ys where "xs = (acc @ [a]) @ ys"
    "map (parseAtom parseFloat) toks = map Inr ys" by blast
  then have "xs = acc @ (a # ys) \<and> map (parseAtom parseFloat) (tok # toks) = map Inr (a # ys)"
    using a by simp
  then show ?case by blast
qed

lemma parseAtoms_Inl:
  "parseAtoms parseFloat toks acc = Inl err \<Longrightarrow>
   \<exists>tok \<in> set toks. parseAtom parseFloat tok = Inl err"
  by (induction toks arbitrary: acc) (auto split: sum.splits)

lemma parseAtoms_ok:
  "map (parseAtom parseFloat) toks = map Inr ys \<Longrightarrow>
   parseAtoms parseFloat toks acc = Inr (acc @ ys)"
proof (induction toks arbitrary: acc ys)
  case Nil
  then show ?case by simp
next
  case (Cons tok toks)
  then obtain a zs where ys: "ys = a # zs" and a: "parseAtom parseFloat tok = Inr a"
    and m: "map (parseAtom parseFloat) toks = map Inr zs"
    by (cases ys) auto
  show ?case using Cons.IH [OF m, of "acc @ [a]"] a ys by simp
qed

lemma foldl_Push:
  "foldl (\<lambda>stack i. Push (f i) stack) st ks = st\<lparr>items := rev (map f ks) @ items st\<rparr>"
  by (induction ks arbitrary: st) (simp_all add: Push_def)

lemma pushReversed_items: "pushReversed xs = \<lparr>items = xs\<rparr>"
proof -
  have "map (\<lambda>i. xs ! (length xs - i - 1)) [0 ..< length xs] = rev xs"
    by (rule nth_equalityI) (simp_all add: rev_nth)
  then show ?thesis by (simp add: pushReversed_def foldl_Push)
qed

lemma Split_nonempty: "Split cs sep \<noteq> []"
  by (induction cs) (auto split: list.splits)

lemma Split_no_sep: "sep \<notin> set t \<Longrightarrow> Split t sep = [t]"
  by (induction t) auto

lemma Split_append_sep: "sep \<notin> set t \<Longrightarrow> Split (t @ sep # cs) sep = t # Split cs sep"
  by (induction t) auto

lemma Split_Join:
  "toks \<noteq> [] \<Longrightarrow> \<forall>t \<in> set toks. sep \<notin> set t \<Longrightarrow> Split (Join toks [sep]) sep = toks"
proof (induction toks "[sep]" rule: Join.induct)
  case 1
  then show ?case by simp
next
  case (2 t)
  then show ?case by (simp add: Split_no_sep)
next
  case (3 t u ts)
  then show ?case by (simp add: Split_append_sep)
qed

lemma Split_tl_empty:
  "[] \<in> set (tl (Split v sep)) \<Longrightarrow> [] \<in> set (tl (Split (u @ v) sep))"
proof (induction u)
  case Nil
  then show ?case by simp
next
  case (Cons x u)
  from Cons have ih: "[] \<in> set (tl (Split (u @ v) sep))" by simp
  then have "[] \<in> set (Split (u @ v) sep)" by (cases "Split (u @ v) sep") auto
  with ih show ?case by (auto split: list.splits)
qed

lemma double_space_split:
  "double_space cs \<Longrightarrow> \<exists>u v. cs = u @ ''  '' @ v"
proof (induction cs rule: double_space.induct)
  case (1 a b cs)
  show ?case
  proof (cases "a = CHR '' '' \<and> b = CHR '' ''")
    case True
    then have "a # b # cs = [] @ ''  '' @ cs" by simp
    then show ?thesis by blast
  next
    case False
    with 1 obtain u v where "b # cs = u @ ''  '' @ v" by auto
    then have "a # b # cs = (a # u) @ ''  '' @ v" by simp
    then show ?thesis by blast
  qed
qed simp_all

lemma stray_space_empty_token:
  assumes "has_stray_space expression"
  shows "[] \<in> set (Split expression CHR '' '')"
proof -
  have tl_in: "[] \<in> set (Split e CHR '' '')" if "[] \<in> set (tl (Split e CHR '' ''))" for e
    using that by (cases "Split e CHR '' ''") auto
  from assms consider "expression \<noteq> []" "hd expression = CHR '' ''"
    | "expression \<noteq> []" "last expression = CHR '' ''" | "double_space expression"
    unfolding has_stray_space_def by blast
  then show ?thesis
  proof cases
    case 1
    then show ?thesis by (cases expression) simp_all
  next
    case 2
    then have e: "expression = butlast expression @ '' ''"
      using append_butlast_last_id [of expression] by simp
    have "[] \<in> set (tl (Split '' '' CHR '' ''))" by simp
    from Split_tl_empty [OF this, of "butlast expression"] e show ?thesis by (simp add: tl_in)
  next
    case 3
    then obtain u v where e: "expression = u @ ''  '' @ v" using double_space_split by blast
    have "[] \<in> set (tl (Split (''  '' @ v) CHR '' ''))" by simp
    from Split_tl_empty [OF this, of u] e show ?thesis by (simp add: tl_in)
  qed
qed

lemma Parse_Inl_iff:
  "(Parse parseFloat expression = Inl err) =
     (parseAtoms parseFloat (Split expression CHR '' '') [] = Inl err)"
  by (simp add: Parse_def split: sum.splits)

lemma Parse_Inr_iff:
  "(Parse parseFloat expression = Inr s) =
     (parseAtoms parseFloat (Split expression CHR '' '') [] = Inr (items s))"
  by (cases s) (auto simp: Parse_def pushReversed_items split: sum.splits)

lemma Parse_error_iff:
  "(\<exists>err. Parse parseFloat expression = Inl err) =
   (\<exists>tok \<in> set (Split expression CHR '' ''). \<not> operator_symbol tok \<and> parseFloat tok = None)"
proof
  assume "\<exists>err. Parse parseFloat expression = Inl err"
  then obtain err where "parseAtoms parseFloat (Split expression CHR '' '') [] = Inl err"
    by (auto simp: Parse_Inl_iff)
  from parseAtoms_Inl [OF this] show
    "\<exists>tok \<in> set (Split expression CHR '' ''). \<not> operator_symbol tok \<and> parseFloat tok = None"
    by (auto simp: parseAtom_Inl_iff)
next
  assume "\<exists>tok \<in> set (Split expression CHR '' ''). \<not> operator_symbol tok \<and> parseFloat tok = None"
  then obtain tok where t: "tok \<in> set (Split expression CHR '' '')"
    and bad: "parseAtom parseFloat tok = Inl (CouldntParse tok)"
    by (auto simp: parseAtom_Inl_iff)
  show "\<exists>err. Parse parseFloat expression = Inl err"
  proof (cases "parseAtoms parseFloat (Split expression CHR '' '') []")
    case (Inl err)
    then show ?thesis by (auto simp: Parse_Inl_iff)
  next
    case (Inr xs)
    from parseAtoms_Inr [OF Inr] obtain ys where
      "map (parseAtom parseFloat) (Split expression CHR '' '') = map Inr ys" by blast
    then have "parseAtom parseFloat tok \<in> set (map Inr ys)" using t
      by (metis image_eqI set_map)
    with bad show ?thesis by auto
  qed
qed

text \<open>
  Claim C8. \<^verbatim>\<open>Parse\<close> returns an error exactly when some token of the input, split at
  every single space, is no operator symbol and does not parse as a number; the error
  names such a token. Since the empty string does not parse as a number, input with a
  leading space, a trailing space or two consecutive spaces gives an error. On success
  the atoms of the stack, front to back, are the atoms of the tokens, left to right.
\<close>

theorem Parse_errors_and_order:
  "((\<exists>err. Parse parseFloat expression = Inl err) =
      (\<exists>tok \<in> set (Split expression CHR '' ''). \<not> operator_symbol tok \<and> parseFloat tok = None))
   \<and> (\<forall>err. Parse parseFloat expression = Inl err \<longrightarrow>
         (\<exists>tok \<in> set (Split expression CHR '' '').
            err = CouldntParse tok \<and> \<not> operator_symbol tok \<and> parseFloat tok = None))
   \<and> (parseFloat [] = None \<and> has_stray_space expression \<longrightarrow>
         (\<exists>err. Parse parseFloat expression = Inl err))
   \<and> (\<forall>s. Parse parseFloat expression = Inr s \<longrightarrow>
         map (parseAtom parseFloat) (Split expression CHR '' '') = map Inr (items s))"
proof (intro conjI allI impI)
  show "(\<exists>err. Parse parseFloat expression = Inl err) =
      (\<exists>tok \<in> set (Split expression CHR '' ''). \<not> operator_symbol tok \<and> parseFloat tok = None)"
    by (rule Parse_error_iff)
next
  fix err assume "Parse parseFloat expression = Inl err"
  then have "parseAtoms parseFloat (Split expression CHR '' '') [] = Inl err"
    by (simp add: Parse_Inl_iff)
  from parseAtoms_Inl [OF this]
  show "\<exists>tok \<in> set (Split expression CHR '' '').
            err = CouldntParse tok \<and> \<not> operator_symbol tok \<and> parseFloat tok = None"
    by (auto simp: parseAtom_Inl_iff)
next
  fix s assume "Parse parseFloat expression = Inr s"
  then have "parseAtoms parseFloat (Split expression CHR '' '') [] = Inr (items s)"
    by (simp add: Parse_Inr_iff)
  from parseAtoms_Inr [OF this]
  show "map (parseAtom parseFloat) (Split expression CHR '' '') = map Inr (items s)" by auto
next
  assume a: "parseFloat [] = None \<and> has_stray_space expression"
  then have e: "[] \<in> set (Split expression CHR '' '')" by (simp add: stray_space_empty_token)
  have "\<not> operator_symbol []"
    by (simp add: operator_symbol_def ADD_def MUL_def DIV_def SQRT_def)
  with a e show "\<exists>err. Parse parseFloat expression = Inl err"
    unfolding Parse_error_iff by blast
qed

theorem Parse_errors_and_order_witness:
  "Parse parseFloat_table ''1  2'' = Inl (CouldntParse [])
   \<and> [] \<in> set (Split ''1  2'' CHR '' '') \<and> \<not> operator_symbol [] \<and> parseFloat_table [] = None
   \<and> has_stray_space ''1  2''
   \<and> Parse parseFloat_table ''1 2 +'' = Inr (NewStack [Number 1, Number 2, Operator ADD])
   \<and> map (parseAtom parseFloat_table) (Split ''1 2 +'' CHR '' '') =
       map Inr [Number 1, Number 2, Operator ADD]"
proof -
  have s: "has_stray_space ''1  2''" by (simp add: has_stray_space_def)
  have e: "Parse parseFloat_table ''1  2'' = Inl (CouldntParse [])"
    by (simp add: Parse_def parseAtom_def parseFloat_table_def)
  have p: "Parse parseFloat_table ''1 2 +'' = Inr (NewStack [Number 1, Number 2, Operator ADD])"
    by (simp add: Parse_def parseAtom_def parseFloat_table_def pushReversed_items NewStack_def)
  have n: "parseFloat_table [] = None" by (simp add: parseFloat_table_def)
  from Parse_errors_and_order [of parseFloat_table "''1  2''"] e
  have "[] \<in> set (Split ''1  2'' CHR '' '') \<and> \<not> operator_symbol []" by auto
  moreover from Parse_errors_and_order [of parseFloat_table "''1 2 +''"] p
  have "map (parseAtom parseFloat_table) (Split ''1 2 +'' CHR '' '') =
       map Inr [Number 1, Number 2, Operator ADD]" by (simp add: NewStack_def)
  ultimately show ?thesis using s e p n by blast
qed

section \<open>Properties of evaluation and of the round trip\<close>





lemma Valid_nonempty: "Valid s \<Longrightarrow> items s \<noteq> []"
  by (auto simp: Valid_def)

lemma symbol_no_space: "operator_symbol opr \<Longrightarrow> CHR '' '' \<notin> set opr"
  by (auto simp: operator_symbol_def ADD_def MUL_def DIV_def SQRT_def)

lemma Parse_String:
  assumes ne: "items s \<noteq> []"
    and dec: "list_all declared_atom (items s)"
    and num: "\<forall>x. Number x \<in> set (items s) \<longrightarrow>
             parseFloat (sprint x) = Some x \<and> CHR '' '' \<notin> set (sprint x)
             \<and> \<not> operator_symbol (sprint x)"
  shows "Parse parseFloat (String sprint s) = Inr s"
proof -
  let ?render = "\<lambda>atom. case atom of Operator opr \<Rightarrow> opr | Number n \<Rightarrow> sprint n"
  let ?toks = "map ?render (items s)"
  have known: "operator_symbol opr" if "Operator opr \<in> set (items s)" for opr
    using dec that by (auto simp: list_all_iff declared_atom_def)
  have nosp: "\<forall>t \<in> set ?toks. CHR '' '' \<notin> set t"
  proof
    fix t assume "t \<in> set ?toks"
    then obtain atom where a: "atom \<in> set (items s)" and t: "t = ?render atom" by auto
    show "CHR '' '' \<notin> set t"
    proof (cases atom)
      case (Number x)
      with a num have "CHR '' '' \<notin> set (sprint x)" by auto
      then show ?thesis using t Number by simp
    next
      case (Operator opr)
      with a have "operator_symbol opr" using known by simp
      then show ?thesis using t Operator by (simp add: symbol_no_space)
    qed
  qed
  have "?toks \<noteq> []" using ne by simp
  from Split_Join [OF this nosp] have sp: "Split (String sprint s) CHR '' '' = ?toks"
    by (simp add: String_def)
  have "map (parseAtom parseFloat) ?toks = map Inr (items s)"
  proof (rule nth_equalityI)
    show "length (map (parseAtom parseFloat) ?toks) = length (map Inr (items s))" by simp
  next
    fix i assume "i < length (map (parseAtom parseFloat) ?toks)"
    then have i: "i < length (items s)" by simp
    then have m: "items s ! i \<in> set (items s)" by simp
    have "parseAtom parseFloat (?render (items s ! i)) = Inr (items s ! i)"
    proof (cases "items s ! i")
      case (Number x)
      with m num have "parseFloat (sprint x) = Some x" "\<not> operator_symbol (sprint x)" by auto
      then show ?thesis using Number by (simp add: parseAtom_number)
    next
      case (Operator opr)
      with m have "operator_symbol opr" using known by simp
      then show ?thesis using Operator by (simp add: parseAtom_symbol)
    qed
    then show "map (parseAtom parseFloat) ?toks ! i = map Inr (items s) ! i" using i by simp
  qed
  from parseAtoms_ok [OF this, of "[]"] sp
  have "parseAtoms parseFloat (Split (String sprint s) CHR '' '') [] = Inr (items s)" by simp
  then show ?thesis by (simp add: Parse_Inr_iff)
qed

text \<open>
  Claim C6, as stated, fails on two stacks of atoms. The empty stack renders as the empty
  string, whose single empty token is not a number. The one-atom stack of the operator
  \<^verbatim>\<open>-\<close>, which is none of the four constants, satisfies \<^verbatim>\<open>Valid\<close> and renders as \<^verbatim>\<open>-\<close>,
  which is neither an operator symbol of the parser nor a number.
\<close>

theorem Parse_String_rejected:
  "Parse parseFloat_table (String Sprint_table (NewStack [])) = Inl (CouldntParse [])
   \<and> Valid (NewStack [Operator ''-'' :: real Atom])
   \<and> Parse parseFloat_table (String Sprint_table (NewStack [Operator ''-''])) =
       Inl (CouldntParse ''-'')"
  by (simp add: Parse_def String_def NewStack_def parseAtom_def parseFloat_table_def Valid_def
      ADD_def MUL_def DIV_def SQRT_def)

text \<open>
  Claim C6, amended. For a stack that is not empty, whose operators are among the four
  declared constants, and whose numbers are rendered by \<^verbatim>\<open>fmt.Sprint\<close> to text without a
  space that \<^verbatim>\<open>strconv.ParseFloat\<close> reads back as the same number, parsing the rendering
  succeeds and gives the same stack; so it evaluates as the stack does, and to the same
  value when the stack is a valid expression.
\<close>

theorem Parse_String_roundtrip:
  assumes "items s \<noteq> []"
    and "list_all declared_atom (items s)"
    and "\<forall>x. Number x \<in> set (items s) \<longrightarrow>
             parseFloat (sprint x) = Some x \<and> CHR '' '' \<notin> set (sprint x)
             \<and> \<not> operator_symbol (sprint x)"
  shows "Parse parseFloat (String sprint s) = Inr s
    \<and> (\<exists>s'. Parse parseFloat (String sprint s) = Inr s' \<and> Evaluate ar s' = Evaluate ar s)
    \<and> (Valid s \<longrightarrow>
         (\<exists>v s'. Evaluate ar s = Inr v \<and> Parse parseFloat (String sprint s) = Inr s'
            \<and> Evaluate ar s' = Inr v))"
proof -
  have p: "Parse parseFloat (String sprint s) = Inr s"
    using Parse_String [OF assms] .
  have "\<exists>v. Evaluate ar s = Inr v" if "Valid s"
    using Valid_Evaluate_total [OF that assms(2), of ar] .
  with p show ?thesis by blast
qed

theorem Parse_String_roundtrip_witness:
  "items (NewStack [Number (3::real), Number 4, Operator DIV]) \<noteq> []
   \<and> list_all declared_atom [Number (3::real), Number 4, Operator DIV]
   \<and> Valid (NewStack [Number (3::real), Number 4, Operator DIV])
   \<and> String Sprint_table (NewStack [Number 3, Number 4, Operator DIV]) = ''3 4 /''
   \<and> Parse parseFloat_table ''3 4 /'' = Inr (NewStack [Number 3, Number 4, Operator DIV])
   \<and> Evaluate exact_arith (NewStack [Number 3, Number 4, Operator DIV]) = Inr (3 / 4)"
proof -
  let ?s = "NewStack [Number (3::real), Number 4, Operator DIV]"
  have n: "items ?s \<noteq> []" by (simp add: NewStack_def)
  have d: "list_all declared_atom [Number (3::real), Number 4, Operator DIV]"
    by (simp add: declared_atom_def operator_symbol_iff)
  then have d': "list_all declared_atom (items ?s)" by (simp add: NewStack_def)
  have v: "Valid ?s" by (simp add: Valid_def NewStack_def)
  have h: "\<forall>x. Number x \<in> set (items ?s) \<longrightarrow>
             parseFloat_table (Sprint_table x) = Some x \<and> CHR '' '' \<notin> set (Sprint_table x)
             \<and> \<not> operator_symbol (Sprint_table x)"
    by (auto simp: NewStack_def parseFloat_table_def Sprint_table_def operator_symbol_def
        ADD_def MUL_def DIV_def SQRT_def)
  have r: "String Sprint_table ?s = ''3 4 /''"
    by (simp add: String_def NewStack_def Sprint_table_def DIV_def)
  have e: "Evaluate exact_arith ?s = Inr (3 / 4)"
    by (simp add: Evaluate_def NewStack_def Copy_def binary_def PopNumber_def Pop_def Push_def
        Peek_def exact_arith_def)
  from Parse_String_roundtrip [OF n d' h, of exact_arith] r
  have "Parse parseFloat_table ''3 4 /'' = Inr ?s" by simp
  with n d v r e show ?thesis by blast
qed

section \<open>Properties of the local improvement\<close>














end
